theory Spec2Isabelle
  imports Main "HOL-Library.AList" "HOL-Library.Sublist" "HOL-Library.Word"
begin

section \<open>The command registry of \<open>src/ui/commands.ts\<close>\<close>

text \<open>
  The registry is the class \<open>CommandRegistry\<close>: one private field \<open>commands\<close>, a
  JavaScript \<open>Map\<close> from command names to entries, and the methods \<open>register\<close>,
  \<open>plugin\<close>, \<open>execute\<close>, \<open>has\<close>, \<open>getMetadata\<close>, \<open>list\<close>, \<open>getAll\<close>,
  \<open>unregister\<close>, \<open>clear\<close> and \<open>help\<close> (here \<open>help_text\<close>). The exported functions of the module call
  the methods of one instance and add nothing, so the methods are what is modelled.
\<close>

subsection \<open>Values\<close>

text \<open>
  The values that handlers take, return and throw: \<open>undefined\<close>, \<open>null\<close>, booleans,
  numbers, strings, instances of \<open>Error\<close>, arrays and plain objects.
  \<^item> \<open>JNum n\<close> is the integer \<open>sint n\<close>, from \<open>-2^53\<close> to \<open>2^53 - 1\<close>: each of them
    is a Number, and is printed in plain decimal digits.
  \<^item> \<open>JError name message\<close> is an instance of \<open>Error\<close> or of a subclass, with its
    \<open>name\<close> and its \<open>message\<close>; \<open>new Error(m)\<close> is \<open>JError ''Error'' m\<close>.
  \<^item> \<open>JArray\<close> is an array of its elements.
  \<^item> \<open>JObject\<close> is an object with the prototype \<open>Object.prototype\<close> and the listed
    own properties. None of the values is a function, so an own property \<open>toString\<close>
    is one that cannot be called.
\<close>

datatype jsval =
    JUndefined
  | JNull
  | JBool bool
  | JNum "54 word"
  | JStr string
  | JError string string
  | JArray "jsval list"
  | JObject "(string \<times> jsval) list"

fun digit :: "nat \<Rightarrow> char" where
  "digit n = ''0123456789'' ! n"

fun decimal :: "nat \<Rightarrow> string" where
  "decimal n = (if n < 10 then [digit n] else decimal (n div 10) @ [digit (n mod 10)])"

declare decimal.simps [simp del]

text \<open>\<open>xs.join(sep)\<close> on an array of strings.\<close>

fun join :: "string \<Rightarrow> string list \<Rightarrow> string" where
  "join sep [] = []"
| "join sep [x] = x"
| "join sep (x # y # ys) = x @ sep @ join sep (y # ys)"

text \<open>
  \<open>String(v)\<close>, the conversion that the \<open>catch\<close> block of \<open>execute\<close> applies. It
  yields a string or throws (\<open>Inl\<close> the value thrown):
  \<^item> an error is \<open>name: message\<close>, or the one of the two that is not empty;
  \<^item> an array is the join by commas of its elements' conversions, taken from left to
    right, with the empty string for \<open>null\<close> and \<open>undefined\<close>; the first conversion
    that throws ends it;
  \<^item> an object is converted by its \<open>toString\<close>, then by its \<open>valueOf\<close>. With no
    own \<open>toString\<close>, that of \<open>Object.prototype\<close> gives \<open>[object Object]\<close>. An own
    \<open>toString\<close> that is no function is passed over, \<open>valueOf\<close> (the prototype's gives
    the object back, an own one is no function) yields no primitive value, and the
    conversion throws a \<open>TypeError\<close>. Its message is the engine's; it is V8's here.
\<close>

definition conversion_error :: jsval where
  "conversion_error = JError ''TypeError'' ''Cannot convert object to primitive value''"

fun all_converted :: "('e + 'a) list \<Rightarrow> 'e + 'a list" where
  "all_converted [] = Inr []"
| "all_converted (Inl e # rest) = Inl e"
| "all_converted (Inr x # rest) =
     (case all_converted rest of Inl e \<Rightarrow> Inl e | Inr xs \<Rightarrow> Inr (x # xs))"

fun String_js :: "jsval \<Rightarrow> jsval + string" where
  "String_js JUndefined = Inr ''undefined''"
| "String_js JNull = Inr ''null''"
| "String_js (JBool b) = Inr (if b then ''true'' else ''false'')"
| "String_js (JNum n) =
     Inr (if sint n < 0 then ''-'' @ decimal (nat (- sint n)) else decimal (nat (sint n)))"
| "String_js (JStr s) = Inr s"
| "String_js (JError name message) =
     Inr (if name = [] then message else if message = [] then name
          else name @ '': '' @ message)"
| "String_js (JArray xs) =
     (case all_converted
             (map (\<lambda>x. if x = JNull \<or> x = JUndefined then Inr [] else String_js x) xs) of
        Inl e \<Rightarrow> Inl e
      | Inr strs \<Rightarrow> Inr (join '','' strs))"
| "String_js (JObject fields) =
     (if ''toString'' \<in> set (map fst fields) then Inl conversion_error
      else Inr ''[object Object]'')"

subsection \<open>Promises and handlers\<close>

text \<open>
  A promise is looked at when it has settled: fulfilled with a value, rejected with a
  reason, or pending for ever. A handler is called with the argument list; it returns a
  value, returns a promise, or throws. What a handler does besides is an effect on a world
  \<open>'w\<close> outside the registry, so that how often a handler ran can be read off the world.
  The registry is not part of that world: a handler that calls the registry's own
  operations while it runs is outside this model.
\<close>

datatype 'a promise = Fulfilled 'a | Rejected 'a | Pending

datatype hresult = Return jsval | ReturnPromise "jsval promise" | Throw jsval

type_synonym 'w CommandHandler = "jsval list \<Rightarrow> 'w \<Rightarrow> hresult \<times> 'w"

record CommandMetadata =
  description :: "string option"
  usage :: "string option"
  examples :: "string list option"

record 'w CommandEntry =
  handler :: "'w CommandHandler"
  metadata :: "CommandMetadata option"

text \<open>
  An element of a \<open>CommandPlugin\<close>: a bare function, or an object with \<open>handler\<close> and
  an optional \<open>metadata\<close>.
\<close>

datatype 'w PluginCommand =
    Function "'w CommandHandler"
  | HandlerObject "'w CommandHandler" "CommandMetadata option"

subsection \<open>The JavaScript \<open>Map\<close>\<close>

text \<open>
  A \<open>Map\<close> iterates in insertion order, \<open>set\<close> on a key that is present keeps the
  key's place, and \<open>delete\<close> says whether the key was there: an association list, with
  \<open>set\<close> replacing in place or appending at the end, and \<open>delete\<close> dropping the
  key's pair. That no key occurs twice in the list is not assumed, but proved of every
  state the operations reach.
\<close>

type_synonym ('k, 'v) Map = "('k \<times> 'v) list"

definition Map_has :: "('k, 'v) Map \<Rightarrow> 'k \<Rightarrow> bool" where
  "Map_has m k = (k \<in> set (map fst m))"

definition Map_get :: "('k, 'v) Map \<Rightarrow> 'k \<Rightarrow> 'v option" where
  "Map_get m k = map_of m k"

definition Map_set :: "('k, 'v) Map \<Rightarrow> 'k \<Rightarrow> 'v \<Rightarrow> ('k, 'v) Map" where
  "Map_set m k v = AList.update k v m"

definition Map_delete :: "('k, 'v) Map \<Rightarrow> 'k \<Rightarrow> bool \<times> ('k, 'v) Map" where
  "Map_delete m k = (Map_has m k, AList.delete k m)"

definition Map_keys :: "('k, 'v) Map \<Rightarrow> 'k list" where
  "Map_keys m = map fst m"

subsection \<open>The registry and its operations\<close>

text \<open>
  The state the methods act on: the \<open>commands\<close> field of the registry, the lines written
  by \<open>console.warn\<close>, and the world of the handlers.
\<close>

record 'w state =
  commands :: "(string, 'w CommandEntry) Map"
  console :: "string list"
  world :: "'w"

definition new_registry :: "'w \<Rightarrow> 'w state" where
  "new_registry w = \<lparr>commands = [], console = [], world = w\<rparr>"

definition has :: "'w state \<Rightarrow> string \<Rightarrow> bool" where
  "has s name = Map_has (commands s) name"

definition register ::
  "'w state \<Rightarrow> string \<Rightarrow> 'w CommandHandler \<Rightarrow> CommandMetadata option \<Rightarrow> 'w state" where
  \<open>register s name h m =
     (let s1 = (if Map_has (commands s) name
                then s\<lparr>console := console s @
                       [''Command "'' @ name @ ''" is already registered. Overwriting...'']\<rparr>
                else s)
      in s1\<lparr>commands := Map_set (commands s1) name \<lparr>handler = h, metadata = m\<rparr>\<rparr>)\<close>

text \<open>
  \<open>plugin\<close> loops over \<open>Object.entries(commands)\<close>, which is the argument here: the
  entries of the object in iteration order, each key once.
\<close>

fun plugin :: "'w state \<Rightarrow> string \<Rightarrow> (string \<times> 'w PluginCommand) list \<Rightarrow> 'w state" where
  "plugin s pluginName [] = s"
| "plugin s pluginName ((commandName, command) # rest) =
     (let fullName = pluginName @ '':'' @ commandName
      in plugin (case command of
                   Function h \<Rightarrow> register s fullName h None
                 | HandlerObject h m \<Rightarrow> register s fullName h m)
           pluginName rest)"

definition list :: "'w state \<Rightarrow> string list" where
  "list s = Map_keys (commands s)"

text \<open>
  \<open>execute\<close> is an \<open>async\<close> function: its result is a promise, rejected where the body
  throws. \<open>await\<close> gives the value of a fulfilled promise or of a plain value, throws the
  reason of a rejected promise, and does not come back from a promise that stays pending.

  The \<open>catch\<close> block throws \<open>new Error\<close> of a message that ends in \<open>error.message\<close>
  for an instance of \<open>Error\<close> and in \<open>String(error)\<close> otherwise. Where \<open>String(error)\<close>
  throws, that is what leaves the \<open>catch\<close> block, and no \<open>Error\<close> is made.
\<close>

definition execution_error :: "string \<Rightarrow> jsval \<Rightarrow> jsval" where
  \<open>execution_error name error =
     (case (case error of JError n message \<Rightarrow> Inr message | _ \<Rightarrow> String_js error) of
        Inl thrown \<Rightarrow> thrown
      | Inr text \<Rightarrow> JError ''Error'' (''Error executing command "'' @ name @ ''": '' @ text))\<close>

text \<open>The \<open>try\<close> block around \<open>await command.handler(...args)\<close> and its \<open>catch\<close>.\<close>

fun try_await :: "string \<Rightarrow> hresult \<Rightarrow> jsval promise" where
  "try_await name (Return result) = Fulfilled result"
| "try_await name (ReturnPromise (Fulfilled result)) = Fulfilled result"
| "try_await name (ReturnPromise (Rejected error)) = Rejected (execution_error name error)"
| "try_await name (ReturnPromise Pending) = Pending"
| "try_await name (Throw error) = Rejected (execution_error name error)"

definition execute :: "'w state \<Rightarrow> string \<Rightarrow> jsval list \<Rightarrow> jsval promise \<times> 'w state" where
  \<open>execute s name args =
     (case Map_get (commands s) name of
        None \<Rightarrow>
          (Rejected (JError ''Error''
                       (''Command "'' @ name @ ''" not found. Available commands: '' @
                        join '', '' (list s))), s)
      | Some command \<Rightarrow>
          (case handler command args (world s) of
             (r, w) \<Rightarrow> (try_await name r, s\<lparr>world := w\<rparr>)))\<close>

definition getMetadata :: "'w state \<Rightarrow> string \<Rightarrow> CommandMetadata option" where
  "getMetadata s name =
     (case Map_get (commands s) name of None \<Rightarrow> None | Some entry \<Rightarrow> metadata entry)"

definition getAll :: "'w state \<Rightarrow> (string \<times> CommandMetadata option) list" where
  "getAll s = map (\<lambda>(name, entry). (name, metadata entry)) (commands s)"

definition unregister :: "'w state \<Rightarrow> string \<Rightarrow> bool \<times> 'w state" where
  "unregister s name =
     (case Map_delete (commands s) name of (removed, m) \<Rightarrow> (removed, s\<lparr>commands := m\<rparr>))"

definition clear :: "'w state \<Rightarrow> 'w state" where
  "clear s = s\<lparr>commands := []\<rparr>"

text \<open>
  \<open>help(name?)\<close>. The tests of the source are on truthiness: \<open>if (name)\<close> fails for an
  omitted name and for the empty string, \<open>if (metadata.description)\<close> and
  \<open>if (metadata.usage)\<close> fail for an unset field and for the empty string.
\<close>

fun truthy :: "string option \<Rightarrow> bool" where
  "truthy None = False"
| "truthy (Some str) = (str \<noteq> [])"

fun if_truthy :: "string option \<Rightarrow> (string \<Rightarrow> string) \<Rightarrow> string" where
  "if_truthy None f = []"
| "if_truthy (Some str) f = (if str \<noteq> [] then f str else [])"

definition help_command :: "string \<Rightarrow> CommandMetadata \<Rightarrow> string" where
  \<open>help_command name md =
     ''Command: '' @ name @ ''\<newline>''
     @ if_truthy (description md) (\<lambda>d. ''Description: '' @ d @ ''\<newline>'')
     @ if_truthy (usage md) (\<lambda>u. ''Usage: '' @ u @ ''\<newline>'')
     @ (case examples md of
          None \<Rightarrow> []
        | Some exs \<Rightarrow>
            if length exs > 0
            then ''Examples:\<newline>'' @ join ''\<newline>'' (map (\<lambda>ex. ''  '' @ ex) exs) @ ''\<newline>''
            else [])\<close>

fun help_all :: "(string \<times> CommandMetadata option) list \<Rightarrow> string" where
  "help_all [] = []"
| "help_all ((name, md) # rest) =
     ''  '' @ name
     @ (case md of None \<Rightarrow> [] | Some m \<Rightarrow> if_truthy (description m) (\<lambda>d. '' - '' @ d))
     @ ''\<newline>'' @ help_all rest"

definition help_text :: "'w state \<Rightarrow> string option \<Rightarrow> string" where
  \<open>help_text s name =
     (if truthy name then
        (case name of Some n \<Rightarrow>
           (case Map_get (commands s) n of
              None \<Rightarrow> ''Command "'' @ n @ ''" not found.''
            | Some command \<Rightarrow>
                (case metadata command of
                   None \<Rightarrow> ''Command: '' @ n @ ''\<newline>No metadata available.''
                 | Some md \<Rightarrow> help_command n md)))
      else
        (let allCommands = getAll s
         in if length allCommands = 0 then ''No commands registered.''
            else ''Available commands:\<newline>\<newline>'' @ help_all allCommands))\<close>

subsection \<open>Reachable states and sequences of operations\<close>

text \<open>The states a registry can be in: a new registry, and what the methods make of it.\<close>

inductive reachable :: "'w state \<Rightarrow> bool" where
  new: "reachable (new_registry w)"
| register: "reachable s \<Longrightarrow> reachable (register s name h m)"
| plugin: "reachable s \<Longrightarrow> reachable (plugin s pluginName cmds)"
| execute: "reachable s \<Longrightarrow> reachable (snd (execute s name args))"
| unregister: "reachable s \<Longrightarrow> reachable (snd (unregister s name))"
| clear: "reachable s \<Longrightarrow> reachable (clear s)"

text \<open>The entries that the map holds for a name; the invariant is that there is at most one.\<close>

definition entries_for :: "'w state \<Rightarrow> string \<Rightarrow> (string \<times> 'w CommandEntry) list" where
  "entries_for s name = filter (\<lambda>e. fst e = name) (commands s)"

definition at_most_one_entry :: "'w state \<Rightarrow> bool" where
  "at_most_one_entry s = (\<forall>name. length (entries_for s name) \<le> 1)"

datatype 'w operation =
    Register string "'w CommandHandler" "CommandMetadata option"
  | Plugin string "(string \<times> 'w PluginCommand) list"
  | Unregister string
  | Clear

fun apply_operation :: "'w state \<Rightarrow> 'w operation \<Rightarrow> 'w state" where
  "apply_operation s (Register name h m) = register s name h m"
| "apply_operation s (Plugin pluginName cmds) = plugin s pluginName cmds"
| "apply_operation s (Unregister name) = snd (unregister s name)"
| "apply_operation s Clear = clear s"

definition run :: "'w state \<Rightarrow> 'w operation list \<Rightarrow> 'w state" where
  "run s ops = foldl apply_operation s ops"

text \<open>What a plugin command is registered with.\<close>

fun plugin_handler :: "'w PluginCommand \<Rightarrow> 'w CommandHandler" where
  "plugin_handler (Function h) = h"
| "plugin_handler (HandlerObject h m) = h"

fun plugin_metadata :: "'w PluginCommand \<Rightarrow> CommandMetadata option" where
  "plugin_metadata (Function h) = None"
| "plugin_metadata (HandlerObject h m) = m"

definition composite :: "string \<Rightarrow> string \<Rightarrow> string" where
  "composite pluginName commandName = pluginName @ '':'' @ commandName"

subsection \<open>Registration order, as the specification words it\<close>

text \<open>
  The registrations and removals that a sequence of operations makes, one after the other;
  a plugin makes one registration for each of its commands. Every event has its position
  in the sequence as its time. A name is stamped with the time of the registration that
  made it present: a registration of a name that is present keeps the stamp, a removal
  takes it away. Registration order is the order of the stamps.
\<close>

datatype event = Registered string | Removed string | Cleared

fun events_of :: "'w operation \<Rightarrow> event list" where
  "events_of (Register name h m) = [Registered name]"
| "events_of (Plugin pluginName cmds) = map (\<lambda>c. Registered (composite pluginName (fst c))) cmds"
| "events_of (Unregister name) = [Removed name]"
| "events_of Clear = [Cleared]"

definition trace :: "'w operation list \<Rightarrow> event list" where
  "trace ops = concat (map events_of ops)"

fun stamp :: "nat \<Rightarrow> event \<Rightarrow> (string \<rightharpoonup> nat) \<Rightarrow> (string \<rightharpoonup> nat)" where
  "stamp t (Registered name) f = (if f name = None then f(name \<mapsto> t) else f)"
| "stamp t (Removed name) f = f(name := None)"
| "stamp t Cleared f = Map.empty"

fun stamps :: "nat \<Rightarrow> event list \<Rightarrow> (string \<rightharpoonup> nat) \<Rightarrow> (string \<rightharpoonup> nat)" where
  "stamps t [] f = f"
| "stamps t (e # es) f = stamps (Suc t) es (stamp t e f)"

definition registered_at :: "event list \<Rightarrow> (string \<rightharpoonup> nat)" where
  "registered_at es = stamps 0 es Map.empty"

definition earlier :: "(string \<rightharpoonup> nat) \<Rightarrow> string \<Rightarrow> string \<Rightarrow> bool" where
  "earlier f a b = (case f a of None \<Rightarrow> False
                    | Some x \<Rightarrow> (case f b of None \<Rightarrow> False | Some y \<Rightarrow> x < y))"

definition in_registration_order :: "string list \<Rightarrow> (string \<rightharpoonup> nat) \<Rightarrow> bool" where
  "in_registration_order names f \<longleftrightarrow>
     set names = dom f \<and> distinct names \<and> sorted_wrt (earlier f) names"

text \<open>
  The metadata that the most recent registration of a name recorded, looking back from the
  latest operation (the head of the list); a removal of the name in between leaves none.
\<close>

fun recorded :: "'w operation list \<Rightarrow> string \<Rightarrow> CommandMetadata option" where
  "recorded [] name = None"
| "recorded (Register n h m # before) name = (if n = name then m else recorded before name)"
| "recorded (Plugin pluginName cmds # before) name =
     (case map_of (rev (map (\<lambda>c. (composite pluginName (fst c), plugin_metadata (snd c))) cmds)) name of
        Some m \<Rightarrow> m
      | None \<Rightarrow> recorded before name)"
| "recorded (Unregister n # before) name = (if n = name then None else recorded before name)"
| "recorded (Clear # before) name = None"

subsection \<open>Help texts, line by line\<close>

text \<open>
  The help texts as the specification words them, as lines: for one command the line of
  its name, a description line and a usage line where the field is set to a non-empty
  string, and the line \<open>Examples:\<close> with one indented line for each example where
  there are examples; for all commands one line for each, with the description after
  \<open> - \<close> where there is a non-empty one.
\<close>

definition unlines :: "string list \<Rightarrow> string" where
  "unlines ls = concat (map (\<lambda>l. l @ ''\<newline>'') ls)"

fun line_if_set :: "string \<Rightarrow> string option \<Rightarrow> string list" where
  "line_if_set label None = []"
| "line_if_set label (Some v) = (if v = [] then [] else [label @ v])"

definition command_lines :: "string \<Rightarrow> CommandMetadata \<Rightarrow> string list" where
  "command_lines name md =
     [''Command: '' @ name]
     @ line_if_set ''Description: '' (description md)
     @ line_if_set ''Usage: '' (usage md)
     @ (case examples md of
          None \<Rightarrow> []
        | Some exs \<Rightarrow> if exs = [] then [] else ''Examples:'' # map (\<lambda>ex. ''  '' @ ex) exs)"

definition listing_line :: "string \<Rightarrow> CommandMetadata option \<Rightarrow> string" where
  "listing_line name md =
     ''  '' @ name
     @ (case md of
          None \<Rightarrow> []
        | Some m \<Rightarrow> (case description m of
                      None \<Rightarrow> []
                    | Some d \<Rightarrow> if d = [] then [] else '' - '' @ d))"

subsection \<open>Handlers to run the registry on\<close>

text \<open>
  Handlers whose world is the number of handler calls made so far: one that adds and one
  that multiplies two numbers (in the integers of the model, which is the sum and the
  product of JavaScript while these stay in the range), one that throws
  \<open>new Error("Test error")\<close>, one that throws the string \<open>"boom"\<close>, one that throws the
  number \<open>42\<close>, one that returns a promise rejected with \<open>new Error("late")\<close>, one that
  throws the object \<open>{toString: null}\<close>, and one that returns a promise rejected with it.
\<close>

fun sample_add :: "nat CommandHandler" where
  "sample_add [JNum a, JNum b] w = (Return (JNum (a + b)), Suc w)"
| "sample_add args w = (Return JUndefined, Suc w)"

fun sample_multiply :: "nat CommandHandler" where
  "sample_multiply [JNum a, JNum b] w = (Return (JNum (a * b)), Suc w)"
| "sample_multiply args w = (Return JUndefined, Suc w)"







definition calculate_metadata :: CommandMetadata where
  "calculate_metadata =
     \<lparr>description = Some ''Add two numbers'',
      usage = Some ''calculate <a> <b>'',
      examples = Some [''calculate 5 3'']\<rparr>"

section \<open>Facts about the operations\<close>

subsection \<open>The map, \<open>register\<close> and \<open>execute\<close>\<close>

lemma Map_get_None_iff: "Map_get m k = None \<longleftrightarrow> \<not> Map_has m k"
  by (simp add: Map_get_def Map_has_def map_of_eq_None_iff)

lemma Map_get_set: "Map_get (Map_set m k v) k' = (if k' = k then Some v else Map_get m k')"
  by (simp add: Map_get_def Map_set_def update_conv')

lemma Map_keys_set:
  "Map_keys (Map_set m k v) = (if Map_has m k then Map_keys m else Map_keys m @ [k])"
  by (simp add: Map_keys_def Map_set_def Map_has_def update_keys)

lemma Map_has_set: "Map_has (Map_set m k v) k' \<longleftrightarrow> k' = k \<or> Map_has m k'"
  by (auto simp add: Map_has_def Map_set_def update_keys)

lemma commands_register:
  "commands (register s name h m) = Map_set (commands s) name \<lparr>handler = h, metadata = m\<rparr>"
  by (simp add: register_def Let_def)

lemma world_register: "world (register s name h m) = world s"
  by (simp add: register_def Let_def)

lemma has_register: "has (register s name h m) n \<longleftrightarrow> n = name \<or> has s n"
  by (simp add: has_def commands_register Map_has_set)

lemma get_register:
  "Map_get (commands (register s name h m)) n =
     (if n = name then Some \<lparr>handler = h, metadata = m\<rparr> else Map_get (commands s) n)"
  by (simp add: commands_register Map_get_set)

lemma getMetadata_register:
  "getMetadata (register s name h m) n = (if n = name then m else getMetadata s n)"
  by (simp add: getMetadata_def get_register)

lemma list_register:
  "list (register s name h m) = (if has s name then list s else list s @ [name])"
  by (simp add: list_def has_def commands_register Map_keys_set)

lemma execute_found:
  "Map_get (commands s) name = Some command \<Longrightarrow>
   execute s name args =
     (try_await name (fst (handler command args (world s))),
      s\<lparr>world := snd (handler command args (world s))\<rparr>)"
  by (simp add: execute_def split: prod.splits)

lemma execute_absent:
  \<open>\<not> has s name \<Longrightarrow>
   execute s name args =
     (Rejected (JError ''Error''
                  (''Command "'' @ name @ ''" not found. Available commands: '' @
                   join '', '' (list s))), s)\<close>
  by (simp add: execute_def has_def Map_get_None_iff [symmetric])

lemma Map_has_iff_get: "Map_has m k \<longleftrightarrow> Map_get m k \<noteq> None"
  by (simp add: Map_get_None_iff)

subsection \<open>Messages\<close>

lemma sublist_join: "x \<in> set xs \<Longrightarrow> sublist x (join sep xs)"
proof (induction sep xs rule: join.induct)
  case (3 sep x' y ys)
  then show ?case
    by (auto simp: sublist_append)
qed auto








lemma commands_execute: "commands (snd (execute s name args)) = commands s"
  by (simp add: execute_def split: option.splits prod.splits)


lemma sublist_in_append: "sublist x b \<Longrightarrow> sublist x (a @ b @ c)"
  by (metis sublist_append)

lemma new_world: "world (new_registry w) = w"
  by (simp add: new_registry_def)

lemma sample_entry:
  "Map_get (commands (register (new_registry w) name h m)) name = Some \<lparr>handler = h, metadata = m\<rparr>"
  by (simp add: get_register)

subsection \<open>The names of a registry are distinct\<close>

lemma filter_key_update_same:
  "distinct (map fst al) \<Longrightarrow> filter (\<lambda>e. fst e = k) (AList.update k v al) = [(k, v)]"
proof (induction al)
  case (Cons p al)
  then show ?case
    by (cases p) (auto simp add: filter_empty_conv image_iff)
qed simp

lemma filter_key_update_other:
  "n \<noteq> k \<Longrightarrow> filter (\<lambda>e. fst e = n) (AList.update k v al) = filter (\<lambda>e. fst e = n) al"
  by (induction al) auto

lemma distinct_keys_iff:
  "distinct (map fst al) \<longleftrightarrow> (\<forall>k. length (filter (\<lambda>e. fst e = k) al) \<le> 1)"
proof (induction al)
  case (Cons p al)
  show ?case
  proof
    assume d: "distinct (map fst (p # al))"
    then have "filter (\<lambda>e. fst e = fst p) al = []"
      unfolding filter_empty_conv by (metis distinct.simps(2) image_eqI list.simps(9) set_map)
    with d Cons show "\<forall>k. length (filter (\<lambda>e. fst e = k) (p # al)) \<le> 1"
      by auto
  next
    assume a: "\<forall>k. length (filter (\<lambda>e. fst e = k) (p # al)) \<le> 1"
    then have "length (filter (\<lambda>e. fst e = fst p) (p # al)) \<le> 1"
      by blast
    then have "filter (\<lambda>e. fst e = fst p) al = []"
      by simp
    then have notin: "fst p \<notin> fst ` set al"
      by (auto simp add: filter_empty_conv)
    have "length (filter (\<lambda>e. fst e = k) al) \<le> 1" for k
      using a [rule_format, of k] by (simp split: if_splits)
    with Cons have "distinct (map fst al)"
      by blast
    with notin show "distinct (map fst (p # al))"
      by simp
  qed
qed simp

lemma at_most_one_entry_iff: "at_most_one_entry s \<longleftrightarrow> distinct (list s)"
  by (simp add: at_most_one_entry_def entries_for_def list_def Map_keys_def distinct_keys_iff)

lemma list_new: "list (new_registry w) = []"
  by (simp add: list_def new_registry_def Map_keys_def)

lemma distinct_list_register: "distinct (list s) \<Longrightarrow> distinct (list (register s name h m))"
  by (simp add: list_def Map_keys_def commands_register Map_set_def distinct_update)

lemma plugin_Cons:
  "plugin s pluginName (c # rest) =
     plugin (register s (composite pluginName (fst c)) (plugin_handler (snd c)) (plugin_metadata (snd c)))
       pluginName rest"
  by (cases c, cases "snd c") (simp_all add: composite_def)

lemma distinct_list_plugin: "distinct (list s) \<Longrightarrow> distinct (list (plugin s pluginName cmds))"
proof (induction cmds arbitrary: s)
  case (Cons c cmds)
  then show ?case
    unfolding plugin_Cons by (simp add: distinct_list_register)
qed simp

lemma list_execute: "list (snd (execute s name args)) = list s"
  by (simp add: list_def commands_execute)

lemma commands_unregister: "commands (snd (unregister s name)) = AList.delete name (commands s)"
  by (simp add: unregister_def Map_delete_def)

lemma list_unregister: "list (snd (unregister s name)) = removeAll name (list s)"
  by (simp add: list_def Map_keys_def commands_unregister delete_keys)

lemma list_clear: "list (clear s) = []"
  by (simp add: list_def Map_keys_def clear_def)

lemma reachable_distinct: "reachable s \<Longrightarrow> distinct (list s)"
proof (induction rule: reachable.induct)
  case (new w)
  show ?case by (simp add: list_new)
next
  case (register s name h m)
  then show ?case by (simp add: distinct_list_register)
next
  case (plugin s pluginName cmds)
  then show ?case by (simp add: distinct_list_plugin)
next
  case (execute s name args)
  then show ?case by (simp add: list_execute)
next
  case (unregister s name)
  then show ?case by (simp add: list_unregister distinct_removeAll)
next
  case (clear s)
  show ?case by (simp add: list_clear)
qed

lemma has_iff_list: "has s name \<longleftrightarrow> name \<in> set (list s)"
  by (simp add: has_def Map_has_def list_def Map_keys_def)

lemma unregister_absent: "\<not> has s name \<Longrightarrow> unregister s name = (False, s)"
  by (simp add: unregister_def Map_delete_def has_def Map_has_def)

lemma get_unregister:
  "Map_get (commands (snd (unregister s name))) n = (if n = name then None else Map_get (commands s) n)"
  by (simp add: commands_unregister Map_get_def delete_conv')

lemma entries_for_register_same:
  "at_most_one_entry s \<Longrightarrow>
   entries_for (register s name h m) name = [(name, \<lparr>handler = h, metadata = m\<rparr>)]"
  by (simp add: at_most_one_entry_iff entries_for_def commands_register Map_set_def
      list_def Map_keys_def filter_key_update_same)

lemma entries_for_register_other:
  "n \<noteq> name \<Longrightarrow> entries_for (register s name h m) n = entries_for s n"
  by (simp add: entries_for_def commands_register Map_set_def filter_key_update_other)

lemma execute_register:
  "execute (register s name h m) name args =
     (try_await name (fst (h args (world s))),
      (register s name h m)\<lparr>world := snd (h args (world s))\<rparr>)"
  using execute_found [of "register s name h m" name "\<lparr>handler = h, metadata = m\<rparr>" args]
  by (simp add: get_register world_register)

subsection \<open>What \<open>plugin\<close> registers\<close>

lemma composite_inject: "composite p a = composite p b \<longleftrightarrow> a = b"
  by (simp add: composite_def)

lemma composite_notin:
  assumes "a \<notin> fst ` set cmds"
  shows "composite p a \<notin> (\<lambda>c. composite p (fst c)) ` set cmds"
proof
  assume "composite p a \<in> (\<lambda>c. composite p (fst c)) ` set cmds"
  then obtain c where c: "c \<in> set cmds" and "composite p a = composite p (fst c)"
    by blast
  then have "a = fst c"
    by (simp add: composite_inject)
  with c have "a \<in> fst ` set cmds"
    by blast
  with assms show False
    by blast
qed

lemma has_plugin:
  "has (plugin s pluginName cmds) n \<longleftrightarrow>
     has s n \<or> n \<in> set (map (\<lambda>c. composite pluginName (fst c)) cmds)"
proof (induction cmds arbitrary: s)
  case (Cons c cmds)
  show ?case
    unfolding plugin_Cons Cons.IH by (auto simp add: has_register)
qed simp

lemma get_plugin:
  "Map_get (commands (plugin s pluginName cmds)) n =
     (case map_of (rev (map (\<lambda>c. (composite pluginName (fst c),
                                   \<lparr>handler = plugin_handler (snd c), metadata = plugin_metadata (snd c)\<rparr>))
                         cmds)) n of
        Some e \<Rightarrow> Some e
      | None \<Rightarrow> Map_get (commands s) n)"
proof (induction cmds arbitrary: s)
  case (Cons c cmds)
  show ?case
    unfolding plugin_Cons Cons.IH
    by (simp add: get_register map_add_def split: option.splits)
qed simp

lemma getMetadata_plugin:
  "getMetadata (plugin s pluginName cmds) n =
     (case map_of (rev (map (\<lambda>c. (composite pluginName (fst c), plugin_metadata (snd c))) cmds)) n of
        Some m \<Rightarrow> m
      | None \<Rightarrow> getMetadata s n)"
proof (induction cmds arbitrary: s)
  case (Cons c cmds)
  show ?case
    unfolding plugin_Cons Cons.IH
    by (simp add: getMetadata_register map_add_def split: option.splits)
qed simp

lemma list_plugin:
  "distinct (map fst cmds) \<Longrightarrow>
   list (plugin s pluginName cmds) =
     list s @ filter (\<lambda>n. \<not> has s n) (map (\<lambda>c. composite pluginName (fst c)) cmds)"
proof (induction cmds arbitrary: s)
  case (Cons c cmds)
  let ?n = "composite pluginName (fst c)"
  let ?s = "register s ?n (plugin_handler (snd c)) (plugin_metadata (snd c))"
  from Cons.prems have fresh: "?n \<notin> set (map (\<lambda>c. composite pluginName (fst c)) cmds)"
    by (simp add: composite_notin)
  then have same: "filter (\<lambda>n. \<not> has ?s n) (map (\<lambda>c. composite pluginName (fst c)) cmds) =
                   filter (\<lambda>n. \<not> has s n) (map (\<lambda>c. composite pluginName (fst c)) cmds)"
    by (intro filter_cong refl) (metis has_register)
  from Cons.prems have "distinct (map fst cmds)"
    by simp
  then have "list (plugin ?s pluginName cmds) =
               list ?s @ filter (\<lambda>n. \<not> has ?s n) (map (\<lambda>c. composite pluginName (fst c)) cmds)"
    by (rule Cons.IH)
  then show ?case
    unfolding plugin_Cons same by (simp add: list_register)
qed simp

lemma map_of_rev_member:
  "distinct (map fst xs) \<Longrightarrow> (k, v) \<in> set xs \<Longrightarrow> map_of (rev xs) k = Some v"
  by (rule map_of_is_SomeI) (simp_all add: rev_map [symmetric])

lemma distinct_composites:
  "distinct (map fst cmds) \<Longrightarrow> distinct (map (\<lambda>c. composite p (fst c)) cmds)"
  by (induction cmds) (simp_all add: composite_notin)

lemma get_plugin_member:
  assumes "distinct (map fst cmds)" and "c \<in> set cmds"
  shows "Map_get (commands (plugin s pluginName cmds)) (composite pluginName (fst c)) =
           Some \<lparr>handler = plugin_handler (snd c), metadata = plugin_metadata (snd c)\<rparr>"
proof -
  define f :: "string \<times> 'a PluginCommand \<Rightarrow> string \<times> 'a CommandEntry" where
    "f = (\<lambda>c. (composite pluginName (fst c),
                 \<lparr>handler = plugin_handler (snd c), metadata = plugin_metadata (snd c)\<rparr>))"
  have "map fst (map f cmds) = map (\<lambda>c. composite pluginName (fst c)) cmds"
    by (simp add: f_def)
  then have "distinct (map fst (map f cmds))"
    using distinct_composites [OF assms(1), of pluginName] by (simp only:)
  moreover have "(composite pluginName (fst c),
                  \<lparr>handler = plugin_handler (snd c), metadata = plugin_metadata (snd c)\<rparr>)
                 \<in> set (map f cmds)"
    using assms(2) by (simp add: f_def image_iff) blast
  ultimately have "map_of (rev (map f cmds)) (composite pluginName (fst c)) =
                     Some \<lparr>handler = plugin_handler (snd c), metadata = plugin_metadata (snd c)\<rparr>"
    by (rule map_of_rev_member)
  then show ?thesis
    unfolding get_plugin f_def by simp
qed

lemma has_new: "\<not> has (new_registry w) n"
  by (simp add: has_iff_list list_new)

subsection \<open>What \<open>getMetadata\<close> reads\<close>

lemma getMetadata_absent: "\<not> has s name \<Longrightarrow> getMetadata s name = None"
  by (simp add: getMetadata_def has_def Map_get_None_iff [symmetric])

lemma getMetadata_unregister:
  "getMetadata (snd (unregister s n)) name = (if name = n then None else getMetadata s name)"
  by (simp add: getMetadata_def get_unregister)

lemma getMetadata_clear: "getMetadata (clear s) name = None"
  by (simp add: getMetadata_def clear_def Map_get_def)

lemma run_snoc: "run s (ops @ [op]) = apply_operation (run s ops) op"
  by (simp add: run_def)

lemma getMetadata_run:
  "getMetadata (run (new_registry w) ops) name = recorded (rev ops) name"
proof (induction ops rule: rev_induct)
  case Nil
  show ?case
    by (simp add: run_def getMetadata_absent has_new)
next
  case (snoc op ops)
  show ?case
  proof (cases op)
    case (Register n h m)
    with snoc show ?thesis
      by (simp add: run_snoc getMetadata_register)
  next
    case (Plugin pluginName cmds)
    with snoc show ?thesis
      by (simp add: run_snoc getMetadata_plugin split: option.splits)
  next
    case (Unregister n)
    with snoc show ?thesis
      by (simp add: run_snoc getMetadata_unregister)
  next
    case Clear
    then show ?thesis
      by (simp add: run_snoc getMetadata_clear)
  qed
qed

subsection \<open>The order of the names\<close>

lemma stamps_append: "stamps t (xs @ ys) f = stamps (t + length xs) ys (stamps t xs f)"
  by (induction xs arbitrary: t f) simp_all

lemma earlier_cong:
  "f' a = f a \<Longrightarrow> f' b = f b \<Longrightarrow> earlier f' a b = earlier f a b"
  by (auto simp add: earlier_def split: option.splits)

lemma order_registered:
  assumes "in_registration_order ks f" and "\<forall>n x. f n = Some x \<longrightarrow> x < t"
  shows "in_registration_order (if n \<in> set ks then ks else ks @ [n]) (stamp t (Registered n) f)"
proof (cases "n \<in> set ks")
  case True
  with assms(1) have "f n \<noteq> None"
    by (auto simp add: in_registration_order_def)
  with True assms(1) show ?thesis
    by auto
next
  case False
  with assms(1) have none: "f n = None"
    by (auto simp add: in_registration_order_def)
  let ?f = "f(n \<mapsto> t)"
  have same: "?f x = f x" if "x \<in> set ks" for x
    using that False by auto
  have "sorted_wrt (earlier f) ks"
    using assms(1) by (simp add: in_registration_order_def)
  moreover have "earlier ?f x y" if "x \<in> set ks" "y \<in> set ks" "earlier f x y" for x y
    using that earlier_cong [of ?f x f y] same by blast
  ultimately have "sorted_wrt (earlier ?f) ks"
    using sorted_wrt_mono_rel [of ks "earlier f" "earlier ?f"] by blast
  moreover have "earlier ?f x n" if "x \<in> set ks" for x
  proof -
    from that assms(1) obtain v where "f x = Some v"
      by (auto simp add: in_registration_order_def)
    with assms(2) that False show ?thesis
      by (auto simp add: earlier_def)
  qed
  ultimately have "sorted_wrt (earlier ?f) (ks @ [n])"
    by (simp add: sorted_wrt_append)
  moreover have "set (ks @ [n]) = dom ?f" and "distinct (ks @ [n])"
    using assms(1) False by (auto simp add: in_registration_order_def)
  ultimately show ?thesis
    using False none by (simp add: in_registration_order_def)
qed

lemma order_removed:
  assumes "in_registration_order ks f"
  shows "in_registration_order (removeAll n ks) (stamp t (Removed n) f)"
proof -
  let ?f = "f(n := None)"
  have same: "?f x = f x" if "x \<in> set (removeAll n ks)" for x
    using that by auto
  have "sorted_wrt (earlier f) ks"
    using assms by (simp add: in_registration_order_def)
  then have "sorted_wrt (earlier f) (removeAll n ks)"
    unfolding removeAll_filter_not_eq by (rule sorted_wrt_filter)
  moreover have "earlier ?f x y"
    if "x \<in> set (removeAll n ks)" "y \<in> set (removeAll n ks)" "earlier f x y" for x y
    using that earlier_cong [of ?f x f y] same by blast
  ultimately have "sorted_wrt (earlier ?f) (removeAll n ks)"
    using sorted_wrt_mono_rel [of "removeAll n ks" "earlier f" "earlier ?f"] by blast
  moreover have "set (removeAll n ks) = dom ?f" and "distinct (removeAll n ks)"
    using assms by (auto simp add: in_registration_order_def distinct_removeAll)
  ultimately show ?thesis
    by (simp add: in_registration_order_def)
qed

lemma order_cleared: "in_registration_order [] (stamp t Cleared f)"
  by (simp add: in_registration_order_def)

lemma stamp_bound:
  "\<forall>n x. f n = Some x \<longrightarrow> x < t \<Longrightarrow> \<forall>n x. stamp t e f n = Some x \<longrightarrow> x < Suc t"
  by (cases e) (auto simp add: less_Suc_eq split: if_splits)

lemma order_register:
  assumes "in_registration_order (list s) f" and "\<forall>n x. f n = Some x \<longrightarrow> x < t"
  shows "in_registration_order (list (register s name h m)) (stamp t (Registered name) f)"
  using order_registered [OF assms, of name] by (simp add: list_register has_iff_list)

lemma order_plugin:
  assumes "in_registration_order (list s) f" and "\<forall>n x. f n = Some x \<longrightarrow> x < t"
  shows "in_registration_order (list (plugin s pluginName cmds))
           (stamps t (events_of (Plugin pluginName cmds)) f)
       \<and> (\<forall>n x. stamps t (events_of (Plugin pluginName cmds)) f n = Some x \<longrightarrow> x < t + length cmds)"
  using assms
proof (induction cmds arbitrary: s f t)
  case Nil
  then show ?case by simp
next
  case (Cons c cmds)
  let ?s = "register s (composite pluginName (fst c)) (plugin_handler (snd c)) (plugin_metadata (snd c))"
  let ?f = "stamp t (Registered (composite pluginName (fst c))) f"
  have "in_registration_order (list ?s) ?f"
    using Cons.prems by (rule order_register)
  moreover have "\<forall>n x. ?f n = Some x \<longrightarrow> x < Suc t"
    using Cons.prems(2) by (rule stamp_bound)
  ultimately have "in_registration_order (list (plugin ?s pluginName cmds))
           (stamps (Suc t) (events_of (Plugin pluginName cmds)) ?f)
       \<and> (\<forall>n x. stamps (Suc t) (events_of (Plugin pluginName cmds)) ?f n = Some x \<longrightarrow>
             x < Suc t + length cmds)"
    by (rule Cons.IH)
  then show ?case
    unfolding plugin_Cons by simp
qed

lemma order_operation:
  assumes "in_registration_order (list s) f" and "\<forall>n x. f n = Some x \<longrightarrow> x < t"
  shows "in_registration_order (list (apply_operation s op)) (stamps t (events_of op) f)
       \<and> (\<forall>n x. stamps t (events_of op) f n = Some x \<longrightarrow> x < t + length (events_of op))"
proof (cases op)
  case (Register name h m)
  with order_register [OF assms, of name h m] stamp_bound [OF assms(2), of "Registered name"]
  show ?thesis by simp
next
  case (Plugin pluginName cmds)
  with order_plugin [OF assms, of pluginName cmds] show ?thesis by simp
next
  case (Unregister name)
  with order_removed [OF assms(1), of name t] stamp_bound [OF assms(2), of "Removed name"]
  show ?thesis by (simp add: list_unregister)
next
  case Clear
  with order_cleared [of t f] stamp_bound [OF assms(2), of Cleared]
  show ?thesis by (simp add: list_clear)
qed

lemma order_run:
  assumes "in_registration_order (list s) f" and "\<forall>n x. f n = Some x \<longrightarrow> x < t"
  shows "in_registration_order (list (run s ops)) (stamps t (trace ops) f)"
  using assms
proof (induction ops arbitrary: s f t)
  case Nil
  then show ?case by (simp add: run_def trace_def)
next
  case (Cons op ops)
  from order_operation [OF Cons.prems, of op]
  have "in_registration_order (list (run (apply_operation s op) ops))
          (stamps (t + length (events_of op)) (trace ops) (stamps t (events_of op) f))"
    by (intro Cons.IH) simp_all
  then show ?case
    by (simp add: run_def trace_def stamps_append)
qed

lemma getAll_names: "map fst (getAll s) = list s"
  by (simp add: getAll_def list_def Map_keys_def split_def comp_def)

lemma getAll_metadata:
  assumes "distinct (list s)"
  shows "getAll s = map (\<lambda>name. (name, getMetadata s name)) (list s)"
proof -
  have "(case e of (name, entry) \<Rightarrow> (name, metadata entry)) = (fst e, getMetadata s (fst e))"
    if "e \<in> set (commands s)" for e
  proof -
    from assms that have "map_of (commands s) (fst e) = Some (snd e)"
      by (intro map_of_is_SomeI) (simp_all add: list_def Map_keys_def)
    then show ?thesis
      by (simp add: getMetadata_def Map_get_def split_def)
  qed
  then show ?thesis
    by (simp add: getAll_def list_def Map_keys_def comp_def cong: map_cong)
qed

subsection \<open>The help texts as lines\<close>

lemma join_unlines: "xs \<noteq> [] \<Longrightarrow> join ''\<newline>'' xs @ ''\<newline>'' = unlines xs"
  by (induction "''\<newline>''" xs rule: join.induct) (simp_all add: unlines_def)

lemma unlines_Nil: "unlines [] = []"
  by (simp add: unlines_def)

lemma unlines_append: "unlines (xs @ ys) = unlines xs @ unlines ys"
  by (simp add: unlines_def)

lemma unlines_Cons: "unlines (x # xs) = x @ ''\<newline>'' @ unlines xs"
  by (simp add: unlines_def)

lemma if_truthy_line:
  "if_truthy x (\<lambda>v. label @ v @ ''\<newline>'') = unlines (line_if_set label x)"
  by (cases x) (simp_all add: unlines_def)

lemma help_command_lines: "help_command name md = unlines (command_lines name md)"
proof -
  have "(case examples md of
          None \<Rightarrow> []
        | Some exs \<Rightarrow>
            if length exs > 0
            then ''Examples:\<newline>'' @ join ''\<newline>'' (map (\<lambda>ex. ''  '' @ ex) exs) @ ''\<newline>''
            else []) =
        unlines (case examples md of
          None \<Rightarrow> []
        | Some exs \<Rightarrow> if exs = [] then [] else ''Examples:'' # map (\<lambda>ex. ''  '' @ ex) exs)"
    by (cases "examples md") (simp_all add: unlines_Nil unlines_Cons join_unlines)
  then show ?thesis
    unfolding help_command_def command_lines_def unlines_append if_truthy_line
    by (simp add: unlines_Cons unlines_Nil)
qed

lemma help_all_lines:
  "help_all xs = unlines (map (\<lambda>e. listing_line (fst e) (snd e)) xs)"
proof (induction xs)
  case (Cons e xs)
  obtain name md where e: "e = (name, md)" by (cases e)
  have "(case md of None \<Rightarrow> [] | Some m \<Rightarrow> if_truthy (description m) (\<lambda>d. '' - '' @ d)) =
        (case md of None \<Rightarrow> [] | Some m \<Rightarrow> (case description m of
                      None \<Rightarrow> []
                    | Some d \<Rightarrow> if d = [] then [] else '' - '' @ d))"
    by (cases md; cases "description (the md)") simp_all
  then show ?case
    using Cons by (simp add: e unlines_Cons listing_line_def)
qed (simp add: unlines_Nil)

lemma help_text_named:
  \<open>n \<noteq> [] \<Longrightarrow>
   help_text s (Some n) =
     (case Map_get (commands s) n of
        None \<Rightarrow> ''Command "'' @ n @ ''" not found.''
      | Some command \<Rightarrow>
          (case metadata command of
             None \<Rightarrow> ''Command: '' @ n @ ''\<newline>No metadata available.''
           | Some md \<Rightarrow> unlines (command_lines n md)))\<close>
  by (simp add: help_text_def help_command_lines split: option.splits)

lemma help_text_all:
  assumes "name = None \<or> name = Some []"
  shows "help_text s name =
           (if list s = [] then ''No commands registered.''
            else unlines ([''Available commands:'', []] @
                   map (\<lambda>e. listing_line (fst e) (snd e)) (getAll s)))"
proof -
  have "\<not> truthy name"
    using assms by auto
  moreover have "getAll s = [] \<longleftrightarrow> list s = []"
    by (simp add: getAll_names [symmetric])
  ultimately show ?thesis
    by (simp add: help_text_def Let_def help_all_lines unlines_append unlines_Cons unlines_Nil)
qed


section \<open>The claims\<close>

subsection \<open>Registering, then using a command\<close>

text \<open>
  Claim C1. In every state, after \<open>register(name, h, m)\<close>: \<open>has(name)\<close> is true;
  \<open>getMetadata(name)\<close> is \<open>m\<close> (absent, \<open>None\<close>, when \<open>m\<close> was omitted); and
  \<open>execute(name, ...args)\<close> calls \<open>h\<close> on exactly the list \<open>args\<close>, once: the world
  afterwards is the world that one call of \<open>h\<close> on \<open>args\<close> leaves and nothing else of
  the state changes. When \<open>h\<close> returns \<open>v\<close> or a promise fulfilled with \<open>v\<close>, the
  promise of \<open>execute\<close> is fulfilled with exactly \<open>v\<close>; while the promise of \<open>h\<close>
  stays pending, so does that of \<open>execute\<close>.
\<close>

theorem register_then_use:
  "let s' = register s name h m in
     has s' name \<and> getMetadata s' name = m \<and>
     (\<forall>args r w. h args (world s') = (r, w) \<longrightarrow>
        snd (execute s' name args) = s'\<lparr>world := w\<rparr> \<and>
        (\<forall>v. r = Return v \<or> r = ReturnPromise (Fulfilled v) \<longrightarrow>
               fst (execute s' name args) = Fulfilled v) \<and>
        (r = ReturnPromise Pending \<longrightarrow> fst (execute s' name args) = Pending))"
proof -
  define s' where "s' = register s name h m"
  have get: "Map_get (commands s') name = Some \<lparr>handler = h, metadata = m\<rparr>"
    by (simp add: s'_def get_register)
  have "has s' name"
    by (simp add: s'_def has_register)
  moreover have "getMetadata s' name = m"
    by (simp add: s'_def getMetadata_register)
  moreover have "snd (execute s' name args) = s'\<lparr>world := w\<rparr>"
    if "h args (world s') = (r, w)" for args r w
    using that by (simp add: execute_found [OF get])
  moreover have "fst (execute s' name args) = Fulfilled v"
    if "h args (world s') = (r, w)" "r = Return v \<or> r = ReturnPromise (Fulfilled v)"
    for args r w v
    using that by (auto simp add: execute_found [OF get])
  moreover have "fst (execute s' name args) = Pending"
    if "h args (world s') = (r, w)" "r = ReturnPromise Pending" for args r w
    using that by (simp add: execute_found [OF get])
  ultimately show ?thesis
    unfolding Let_def s'_def [symmetric] by blast
qed

theorem register_then_use_witness:
  "has (register (new_registry 0) ''calculate'' sample_add (Some calculate_metadata)) ''calculate''
   \<and> getMetadata (register (new_registry 0) ''calculate'' sample_add (Some calculate_metadata))
        ''calculate'' = Some calculate_metadata
   \<and> fst (execute (register (new_registry 0) ''calculate'' sample_add (Some calculate_metadata))
        ''calculate'' [JNum 5, JNum 3]) = Fulfilled (JNum 8)
   \<and> world (snd (execute (register (new_registry 0) ''calculate'' sample_add (Some calculate_metadata))
        ''calculate'' [JNum 5, JNum 3])) = Suc 0"
proof -
  define s' where "s' = register (new_registry 0) ''calculate'' sample_add (Some calculate_metadata)"
  have run: "sample_add [JNum 5, JNum 3] (world s') = (Return (JNum 8), Suc 0)"
    by (simp add: s'_def world_register new_world)
  have all: "has s' ''calculate'' \<and> getMetadata s' ''calculate'' = Some calculate_metadata \<and>
     (\<forall>args r w. sample_add args (world s') = (r, w) \<longrightarrow>
        snd (execute s' ''calculate'' args) = s'\<lparr>world := w\<rparr> \<and>
        (\<forall>v. r = Return v \<or> r = ReturnPromise (Fulfilled v) \<longrightarrow>
               fst (execute s' ''calculate'' args) = Fulfilled v) \<and>
        (r = ReturnPromise Pending \<longrightarrow> fst (execute s' ''calculate'' args) = Pending))"
    using register_then_use [of "new_registry 0" "''calculate''" sample_add "Some calculate_metadata"]
    unfolding Let_def s'_def by this
  from all run have "snd (execute s' ''calculate'' [JNum 5, JNum 3]) = s'\<lparr>world := Suc 0\<rparr>"
    and "fst (execute s' ''calculate'' [JNum 5, JNum 3]) = Fulfilled (JNum 8)"
    by blast+
  with all show ?thesis
    unfolding s'_def by simp
qed

subsection \<open>Executing a name that is not registered\<close>

text \<open>
  Claim C2. In every state, \<open>execute\<close> of a name that is not registered leaves the state
  as it is and rejects with an \<open>Error\<close> whose message holds the requested name, the words
  \<open>not found\<close>, and the whole of \<open>list()\<close> joined by commas; \<open>list()\<close> holds exactly
  the names for which \<open>has\<close> is true, so the message holds every registered name. On a
  new registry, \<open>execute("ghost")\<close> rejects with a message that holds \<open>ghost\<close> and
  \<open>not found\<close>.
\<close>

theorem execute_not_found:
  assumes "\<not> has s name"
  shows \<open>\<exists>msg. execute s name args = (Rejected (JError ''Error'' msg), s)
           \<and> msg = ''Command "'' @ name @ ''" not found. Available commands: '' @ join '', '' (list s)
           \<and> sublist name msg \<and> sublist ''not found'' msg
           \<and> sublist (join '', '' (list s)) msg
           \<and> (\<forall>n \<in> set (list s). sublist n msg)
           \<and> (\<forall>n. has s n \<longrightarrow> sublist n msg)
           \<and> set (list s) = {n. has s n}\<close>
proof -
  define msg where
    \<open>msg = ''Command "'' @ name @ ''" not found. Available commands: '' @ join '', '' (list s)\<close>
  have "execute s name args = (Rejected (JError ''Error'' msg), s)"
    using assms by (simp add: execute_absent msg_def)
  moreover have "sublist name msg"
    unfolding msg_def by (rule sublist_appendI)
  moreover have \<open>msg = (''Command "'' @ name @ ''" '') @ ''not found'' @
                      (''. Available commands: '' @ join '', '' (list s))\<close>
    by (simp add: msg_def)
  then have "sublist ''not found'' msg"
    using sublist_appendI by metis
  moreover have whole: "sublist (join '', '' (list s)) msg"
    unfolding msg_def by (intro sublist_in_append [where c = "[]", simplified] suffix_imp_sublist) simp
  moreover have listed: "sublist n msg" if "n \<in> set (list s)" for n
    using sublist_join [OF that, of "'', ''"] whole by (rule sublist_order.order_trans)
  moreover have "sublist n msg" if "has s n" for n
    using that listed by (simp add: has_iff_list)
  moreover have "set (list s) = {n. has s n}"
    by (auto simp add: has_iff_list)
  ultimately show ?thesis
    using msg_def by blast
qed

theorem execute_not_found_witness:
  \<open>\<not> has (new_registry ()) ''ghost''
   \<and> (\<exists>msg. fst (execute (new_registry ()) ''ghost'' []) = Rejected (JError ''Error'' msg)
          \<and> sublist ''ghost'' msg \<and> sublist ''not found'' msg)
   \<and> has (register (register (new_registry 0) ''cmd1'' sample_add None) ''cmd2'' sample_multiply None)
        ''cmd1''
   \<and> has (register (register (new_registry 0) ''cmd1'' sample_add None) ''cmd2'' sample_multiply None)
        ''cmd2''
   \<and> \<not> has (register (register (new_registry 0) ''cmd1'' sample_add None) ''cmd2'' sample_multiply None)
        ''ghost''
   \<and> fst (execute (register (register (new_registry 0) ''cmd1'' sample_add None) ''cmd2''
                     sample_multiply None) ''ghost'' []) =
       Rejected (JError ''Error'' ''Command "ghost" not found. Available commands: cmd1, cmd2'')
   \<and> sublist ''cmd1'' ''Command "ghost" not found. Available commands: cmd1, cmd2''
   \<and> sublist ''cmd2'' ''Command "ghost" not found. Available commands: cmd1, cmd2''\<close>
proof -
  have absent: "\<not> has (new_registry ()) ''ghost''"
    by (rule has_new)
  from execute_not_found [OF absent, of "[]"] obtain msg where
    "execute (new_registry ()) ''ghost'' [] = (Rejected (JError ''Error'' msg), new_registry ())"
    "sublist ''ghost'' msg" "sublist ''not found'' msg"
    by blast
  then have empty: "\<exists>msg. fst (execute (new_registry ()) ''ghost'' []) = Rejected (JError ''Error'' msg)
          \<and> sublist ''ghost'' msg \<and> sublist ''not found'' msg"
    by auto
  define s where
    "s = register (register (new_registry 0) ''cmd1'' sample_add None) ''cmd2'' sample_multiply None"
  have h1: "has s ''cmd1''" and h2: "has s ''cmd2''" and h3: "\<not> has s ''ghost''"
    by (simp_all add: s_def has_register has_new)
  have l: "list s = [''cmd1'', ''cmd2'']"
    by (simp add: s_def list_register has_register has_new list_new)
  from execute_not_found [OF h3, of "[]"] obtain m where
    ex: "execute s ''ghost'' [] = (Rejected (JError ''Error'' m), s)"
    and m: \<open>m = ''Command "'' @ ''ghost'' @ ''" not found. Available commands: '' @ join '', '' (list s)\<close>
    and named: "\<forall>n. has s n \<longrightarrow> sublist n m"
    by blast
  have lit: \<open>m = ''Command "ghost" not found. Available commands: cmd1, cmd2''\<close>
    unfolding m l by simp
  from named h1 h2 have "sublist ''cmd1'' m" "sublist ''cmd2'' m"
    by blast+
  with ex h1 h2 h3 empty absent show ?thesis
    unfolding lit s_def by simp
qed

subsection \<open>A handler that fails\<close>




subsection \<open>One entry for each name\<close>

text \<open>
  Claim C4. Every reachable state of the registry holds at most one entry for each name,
  and each operation (\<open>register\<close>, \<open>plugin\<close>, \<open>execute\<close>, \<open>unregister\<close>, \<open>clear\<close>)
  keeps it so. \<open>register\<close> has no failing branch: for every name, handler and metadata
  it yields a state, in which the one entry of the name holds the new handler and the new
  metadata, whether the name was present (replaced in place) or absent (added at the end);
  the entries of the other names are as before; and \<open>execute\<close> of the name then runs
  the new handler only.
\<close>

theorem one_entry_per_name:
  "(reachable s \<longrightarrow> at_most_one_entry s)
   \<and> (at_most_one_entry s \<longrightarrow>
        at_most_one_entry (register s name h m)
      \<and> at_most_one_entry (plugin s pluginName cmds)
      \<and> at_most_one_entry (snd (execute s name args))
      \<and> at_most_one_entry (snd (unregister s name))
      \<and> at_most_one_entry (clear s)
      \<and> entries_for (register s name h m) name = [(name, \<lparr>handler = h, metadata = m\<rparr>)]
      \<and> (\<forall>n. n \<noteq> name \<longrightarrow> entries_for (register s name h m) n = entries_for s n)
      \<and> list (register s name h m) = (if has s name then list s else list s @ [name])
      \<and> execute (register s name h m) name args =
          (try_await name (fst (h args (world s))),
           (register s name h m)\<lparr>world := snd (h args (world s))\<rparr>))"
proof -
  have "at_most_one_entry s" if "reachable s"
    using that by (simp add: at_most_one_entry_iff reachable_distinct)
  moreover have "at_most_one_entry (register s name h m)"
    and "at_most_one_entry (plugin s pluginName cmds)"
    and "at_most_one_entry (snd (execute s name args))"
    and "at_most_one_entry (snd (unregister s name))"
    and "at_most_one_entry (clear s)"
    if "at_most_one_entry s"
    using that
    by (simp_all add: at_most_one_entry_iff distinct_list_register distinct_list_plugin
        list_execute list_unregister distinct_removeAll list_clear)
  ultimately show ?thesis
    using entries_for_register_same [of s name h m] entries_for_register_other [of _ name s h m]
      list_register [of s name h m] execute_register [of s name h m args]
    by blast
qed

theorem one_entry_per_name_witness:
  "reachable (register (new_registry 0) ''x'' sample_add None)
   \<and> at_most_one_entry (register (new_registry 0) ''x'' sample_add None)
   \<and> at_most_one_entry (register (register (new_registry 0) ''x'' sample_add None) ''x'' sample_multiply None)
   \<and> list (register (register (new_registry 0) ''x'' sample_add None) ''x'' sample_multiply None) = [''x'']
   \<and> fst (execute (register (register (new_registry 0) ''x'' sample_add None) ''x'' sample_multiply None)
        ''x'' [JNum 5, JNum 4]) = Fulfilled (JNum 20)"
proof -
  define s where "s = register (new_registry 0) ''x'' sample_add None"
  have r: "reachable s"
    unfolding s_def by (intro reachable.intros)
  have l: "list s = [''x'']" and h: "has s ''x''" and w: "world s = 0"
    by (simp_all add: s_def list_register has_register has_iff_list list_new world_register new_world)
  note inst = one_entry_per_name [of s "''x''" sample_multiply None "''p''" "[]" "[JNum 5, JNum 4]"]
  from inst r have inv: "at_most_one_entry s"
    by blast
  with inst have inv': "at_most_one_entry (register s ''x'' sample_multiply None)"
    and l': "list (register s ''x'' sample_multiply None) = (if has s ''x'' then list s else list s @ [''x''])"
    and e: "execute (register s ''x'' sample_multiply None) ''x'' [JNum 5, JNum 4] =
          (try_await ''x'' (fst (sample_multiply [JNum 5, JNum 4] (world s))),
           (register s ''x'' sample_multiply None)\<lparr>world := snd (sample_multiply [JNum 5, JNum 4] (world s))\<rparr>)"
    by blast+
  have "fst (execute (register s ''x'' sample_multiply None) ''x'' [JNum 5, JNum 4]) = Fulfilled (JNum 20)"
    unfolding e by simp
  with r inv inv' l' show ?thesis
    unfolding s_def [symmetric] by (simp add: l h)
qed

subsection \<open>Plugins\<close>

text \<open>
  Claim C5, as the code has it. For a plugin name and the entries of a commands object
  (each short name once), \<open>plugin\<close> registers every entry under the composite name
  \<open>pluginName:shortName\<close>, with the entry's handler and with its metadata when the entry
  is a \<open>{handler, metadata}\<close> object (none for a bare function); the new names are added
  to \<open>list()\<close> in the order of the entries. Afterwards a name is registered exactly when
  it was registered before or is one of the composite names: a short name that was not
  registered before, and is not itself one of the composite names, is not registered.
\<close>

theorem plugin_registers_composite_names:
  assumes "distinct (map fst cmds)"
  shows "(\<forall>c \<in> set cmds.
            Map_get (commands (plugin s pluginName cmds)) (pluginName @ '':'' @ fst c) =
              Some \<lparr>handler = plugin_handler (snd c), metadata = plugin_metadata (snd c)\<rparr>)
       \<and> list (plugin s pluginName cmds) =
           list s @ filter (\<lambda>n. \<not> has s n) (map (\<lambda>c. pluginName @ '':'' @ fst c) cmds)
       \<and> (\<forall>n. has (plugin s pluginName cmds) n \<longleftrightarrow>
                has s n \<or> n \<in> set (map (\<lambda>c. pluginName @ '':'' @ fst c) cmds))
       \<and> (\<forall>c \<in> set cmds.
            \<not> has s (fst c) \<and> fst c \<notin> set (map (\<lambda>c. pluginName @ '':'' @ fst c) cmds) \<longrightarrow>
            \<not> has (plugin s pluginName cmds) (fst c))"
proof -
  have "Map_get (commands (plugin s pluginName cmds)) (pluginName @ '':'' @ fst c) =
          Some \<lparr>handler = plugin_handler (snd c), metadata = plugin_metadata (snd c)\<rparr>"
    if "c \<in> set cmds" for c
    using get_plugin_member [OF assms that, of s pluginName] by (simp add: composite_def)
  moreover have "list (plugin s pluginName cmds) =
           list s @ filter (\<lambda>n. \<not> has s n) (map (\<lambda>c. pluginName @ '':'' @ fst c) cmds)"
    using list_plugin [OF assms, of s pluginName] by (simp add: composite_def)
  moreover have iff: "has (plugin s pluginName cmds) n \<longleftrightarrow>
                has s n \<or> n \<in> set (map (\<lambda>c. pluginName @ '':'' @ fst c) cmds)" for n
    using has_plugin [of s pluginName cmds n] by (simp add: composite_def)
  moreover have "\<not> has (plugin s pluginName cmds) (fst c)"
    if "\<not> has s (fst c)" "fst c \<notin> set (map (\<lambda>c. pluginName @ '':'' @ fst c) cmds)" for c
    using that iff [of "fst c"] by blast
  ultimately show ?thesis
    by blast
qed

theorem plugin_registers_composite_names_witness:
  "distinct (map fst [(''add'', Function sample_add),
                      (''multiply'', HandlerObject sample_multiply (Some calculate_metadata))])
   \<and> has (plugin (new_registry 0) ''math''
             [(''add'', Function sample_add),
              (''multiply'', HandlerObject sample_multiply (Some calculate_metadata))]) ''math:add''
   \<and> \<not> has (plugin (new_registry 0) ''math''
             [(''add'', Function sample_add),
              (''multiply'', HandlerObject sample_multiply (Some calculate_metadata))]) ''add''
   \<and> list (plugin (new_registry 0) ''math''
             [(''add'', Function sample_add),
              (''multiply'', HandlerObject sample_multiply (Some calculate_metadata))]) =
       [''math:add'', ''math:multiply'']"
proof -
  define cmds where
    "cmds = [(''add'', Function sample_add),
             (''multiply'', HandlerObject sample_multiply (Some calculate_metadata))]"
  have d: "distinct (map fst cmds)"
    by (simp add: cmds_def)
  note inst = plugin_registers_composite_names [OF d, of "new_registry 0" "''math''"]
  have names: "map (\<lambda>c. ''math'' @ '':'' @ fst c) cmds = [''math:add'', ''math:multiply'']"
    by (simp add: cmds_def)
  from inst have "has (plugin (new_registry 0) ''math'' cmds) ''math:add''"
    unfolding names by simp
  moreover from inst have "\<not> has (plugin (new_registry 0) ''math'' cmds) ''add''"
    unfolding names by (simp add: has_new)
  moreover from inst have "list (plugin (new_registry 0) ''math'' cmds) = [''math:add'', ''math:multiply'']"
    unfolding names by (simp add: has_new list_new)
  ultimately show ?thesis
    using d unfolding cmds_def by blast
qed

text \<open>
  Claim C5 as it was stated says that after \<open>plugin\<close> the short name alone is not
  registered, for every plugin name and commands object. On a new registry,
  \<open>plugin("x", {"a": h, "x:a": h})\<close> registers \<open>x:a\<close> and \<open>x:x:a\<close>, and \<open>x:a\<close> is
  a short name of the object; and where \<open>add\<close> is registered already,
  \<open>plugin("math", {add: h})\<close> leaves it registered.
\<close>

theorem plugin_short_name_counterexample:
  "distinct (map fst [(''a'', Function sample_add), (''x:a'', Function sample_add)])
   \<and> ''x:a'' \<in> set (map fst [(''a'', Function sample_add), (''x:a'', Function sample_add)])
   \<and> has (plugin (new_registry 0) ''x'' [(''a'', Function sample_add), (''x:a'', Function sample_add)])
        ''x:a''
   \<and> has (plugin (register (new_registry 0) ''add'' sample_add None) ''math''
             [(''add'', Function sample_multiply)]) ''add''"
  by (simp add: has_plugin composite_def has_register)

subsection \<open>Listing in registration order\<close>

text \<open>
  Claim C6. After any sequence of \<open>register\<close>, \<open>plugin\<close>, \<open>unregister\<close> and \<open>clear\<close>
  on a new registry, \<open>list()\<close> holds exactly the names that are registered (those for
  which \<open>has\<close> is true, which are those that carry a registration time), each once,
  in the order in which they were registered: by increasing time of the registration that
  made the name present, where registering a name that is present keeps its time, hence
  its place. \<open>getAll()\<close> holds the same names in the same order, each with the metadata
  that \<open>getMetadata\<close> gives for it. Registering a name again leaves \<open>list()\<close> as it is;
  a new name goes to the end.
\<close>

theorem list_in_registration_order:
  "in_registration_order (list (run (new_registry w) ops)) (registered_at (trace ops))
   \<and> set (list (run (new_registry w) ops)) = {n. has (run (new_registry w) ops) n}
   \<and> getAll (run (new_registry w) ops) =
       map (\<lambda>name. (name, getMetadata (run (new_registry w) ops) name))
         (list (run (new_registry w) ops))
   \<and> list (register (run (new_registry w) ops) name h m) =
       (if has (run (new_registry w) ops) name then list (run (new_registry w) ops)
        else list (run (new_registry w) ops) @ [name])"
proof -
  have "in_registration_order (list (new_registry w)) Map.empty"
    by (simp add: in_registration_order_def list_new)
  then have ord: "in_registration_order (list (run (new_registry w) ops)) (registered_at (trace ops))"
    unfolding registered_at_def by (rule order_run) simp
  then have "distinct (list (run (new_registry w) ops))"
    by (simp add: in_registration_order_def)
  then have "getAll (run (new_registry w) ops) =
       map (\<lambda>name. (name, getMetadata (run (new_registry w) ops) name))
         (list (run (new_registry w) ops))"
    by (rule getAll_metadata)
  with ord show ?thesis
    by (simp add: list_register has_iff_list)
qed

theorem list_in_registration_order_witness:
  "list (run (new_registry (0::nat))
      [Register ''a'' sample_add None, Register ''b'' sample_add None,
       Register ''a'' sample_multiply (Some calculate_metadata),
       Plugin ''p'' [(''c'', Function sample_add)], Unregister ''b'',
       Register ''b'' sample_add None]) = [''a'', ''p:c'', ''b'']
   \<and> in_registration_order [''a'', ''p:c'', ''b'']
       (registered_at (trace
         [Register ''a'' sample_add None, Register ''b'' sample_add None,
          Register ''a'' sample_multiply (Some calculate_metadata),
          Plugin ''p'' [(''c'', Function sample_add)], Unregister ''b'',
          Register ''b'' sample_add None]))
   \<and> map (registered_at (trace
         [Register ''a'' sample_add None, Register ''b'' sample_add None,
          Register ''a'' sample_multiply (Some calculate_metadata),
          Plugin ''p'' [(''c'', Function sample_add)], Unregister ''b'',
          Register ''b'' sample_add None])) [''a'', ''p:c'', ''b''] = [Some 0, Some 3, Some 5]
   \<and> getAll (run (new_registry (0::nat))
      [Register ''a'' sample_add None, Register ''b'' sample_add None,
       Register ''a'' sample_multiply (Some calculate_metadata),
       Plugin ''p'' [(''c'', Function sample_add)], Unregister ''b'',
       Register ''b'' sample_add None]) =
       [(''a'', Some calculate_metadata), (''p:c'', None), (''b'', None)]"
proof -
  define ops :: "nat operation list" where
    "ops = [Register ''a'' sample_add None, Register ''b'' sample_add None,
       Register ''a'' sample_multiply (Some calculate_metadata),
       Plugin ''p'' [(''c'', Function sample_add)], Unregister ''b'',
       Register ''b'' sample_add None]"
  have l: "list (run (new_registry 0) ops) = [''a'', ''p:c'', ''b'']"
    by (simp add: ops_def run_def list_register list_unregister has_iff_list list_new)
  have m: "map (getMetadata (run (new_registry 0) ops)) [''a'', ''p:c'', ''b''] =
             [Some calculate_metadata, None, None]"
    by (simp add: ops_def run_def getMetadata_register getMetadata_unregister
        getMetadata_absent has_new)
  have t: "map (registered_at (trace ops)) [''a'', ''p:c'', ''b''] = [Some 0, Some 3, Some 5]"
    by (simp add: ops_def registered_at_def trace_def composite_def)
  note inst = list_in_registration_order [of 0 ops "''a''" sample_add None]
  from inst have "in_registration_order [''a'', ''p:c'', ''b''] (registered_at (trace ops))"
    unfolding l by blast
  moreover from inst m have "getAll (run (new_registry 0) ops) =
       [(''a'', Some calculate_metadata), (''p:c'', None), (''b'', None)]"
    unfolding l by simp
  ultimately show ?thesis
    using l t unfolding ops_def by blast
qed

subsection \<open>Help\<close>

text \<open>
  Claim C7, as the code has it. \<open>help\<close> has no failing branch; it yields a text for
  every state and argument. For a non-empty name that is not registered the text is
  \<open>Command "name" not found.\<close>; for a non-empty name registered without metadata it is
  the line \<open>Command: name\<close> and \<open>No metadata available.\<close>; for a non-empty name
  registered with metadata it is the line of the name, a description line when the
  description is set and not empty, a usage line when the usage is set and not empty, and
  the line \<open>Examples:\<close> with each example on an indented line of its own when there
  are examples. With no name, or with the empty string, the text is
  \<open>No commands registered.\<close> on an empty registry and otherwise the header
  \<open>Available commands:\<close>, an empty line, and one line for each command in the order of
  \<open>list()\<close>, with the description after \<open> - \<close> when it is set and not empty.
\<close>

theorem help_text_renders:
  \<open>(\<forall>n. n \<noteq> [] \<and> \<not> has s n \<longrightarrow>
         help_text s (Some n) = ''Command "'' @ n @ ''" not found.''
       \<and> sublist n (help_text s (Some n)) \<and> sublist ''not found'' (help_text s (Some n)))
   \<and> (\<forall>n entry. n \<noteq> [] \<and> Map_get (commands s) n = Some entry \<and> metadata entry = None \<longrightarrow>
         help_text s (Some n) = ''Command: '' @ n @ ''\<newline>No metadata available.'')
   \<and> (\<forall>n entry md. n \<noteq> [] \<and> Map_get (commands s) n = Some entry \<and> metadata entry = Some md \<longrightarrow>
         help_text s (Some n) = unlines (command_lines n md))
   \<and> (\<forall>name. name = None \<or> name = Some [] \<longrightarrow>
         (list s = [] \<longrightarrow> help_text s name = ''No commands registered.'')
       \<and> (list s \<noteq> [] \<and> at_most_one_entry s \<longrightarrow>
            help_text s name =
              unlines ([''Available commands:'', []] @
                       map (\<lambda>n. listing_line n (getMetadata s n)) (list s))))\<close>
proof -
  have absent: \<open>help_text s (Some n) = ''Command "'' @ n @ ''" not found.''\<close>
    if "n \<noteq> []" "\<not> has s n" for n
    using that by (simp add: help_text_named has_def Map_get_None_iff [symmetric])
  have absent_name: "sublist n (help_text s (Some n))" if "n \<noteq> []" "\<not> has s n" for n
    unfolding absent [OF that] by (rule sublist_appendI)
  have absent_words: "sublist ''not found'' (help_text s (Some n))" if "n \<noteq> []" "\<not> has s n" for n
  proof -
    have \<open>help_text s (Some n) = (''Command "'' @ n @ ''" '') @ ''not found'' @ ''.''\<close>
      unfolding absent [OF that] by simp
    then show ?thesis
      using sublist_appendI by metis
  qed
  have bare: "help_text s (Some n) = ''Command: '' @ n @ ''\<newline>No metadata available.''"
    if "n \<noteq> []" "Map_get (commands s) n = Some entry" "metadata entry = None" for n entry
    using that by (simp add: help_text_named)
  have full: "help_text s (Some n) = unlines (command_lines n md)"
    if "n \<noteq> []" "Map_get (commands s) n = Some entry" "metadata entry = Some md" for n entry md
    using that by (simp add: help_text_named)
  have none: "help_text s name = ''No commands registered.''"
    if "name = None \<or> name = Some []" "list s = []" for name
    using that by (simp add: help_text_all)
  have listing: "help_text s name =
              unlines ([''Available commands:'', []] @
                       map (\<lambda>n. listing_line n (getMetadata s n)) (list s))"
    if "name = None \<or> name = Some []" "list s \<noteq> []" "at_most_one_entry s" for name
  proof -
    from that(3) have "getAll s = map (\<lambda>name. (name, getMetadata s name)) (list s)"
      by (intro getAll_metadata) (simp add: at_most_one_entry_iff)
    then have "map (\<lambda>e. listing_line (fst e) (snd e)) (getAll s) =
               map (\<lambda>n. listing_line n (getMetadata s n)) (list s)"
      by (simp add: comp_def)
    with that(2) show ?thesis
      by (simp add: help_text_all [OF that(1)])
  qed
  show ?thesis
  proof (intro conjI allI impI)
    fix n
    assume "n \<noteq> [] \<and> \<not> has s n"
    then show \<open>help_text s (Some n) = ''Command "'' @ n @ ''" not found.''\<close>
      and "sublist n (help_text s (Some n))"
      and "sublist ''not found'' (help_text s (Some n))"
      using absent absent_name absent_words by blast+
  next
    fix n entry
    assume "n \<noteq> [] \<and> Map_get (commands s) n = Some entry \<and> metadata entry = None"
    then show "help_text s (Some n) = ''Command: '' @ n @ ''\<newline>No metadata available.''"
      using bare by blast
  next
    fix n entry md
    assume "n \<noteq> [] \<and> Map_get (commands s) n = Some entry \<and> metadata entry = Some md"
    then show "help_text s (Some n) = unlines (command_lines n md)"
      using full by blast
  next
    fix name :: "string option"
    assume "name = None \<or> name = Some []" and "list s = []"
    then show "help_text s name = ''No commands registered.''"
      by (rule none)
  next
    fix name :: "string option"
    assume "name = None \<or> name = Some []" and "list s \<noteq> [] \<and> at_most_one_entry s"
    then show "help_text s name =
              unlines ([''Available commands:'', []] @
                       map (\<lambda>n. listing_line n (getMetadata s n)) (list s))"
      using listing by blast
  qed
qed

theorem help_text_renders_witness:
  \<open>help_text (register (new_registry 0) ''calculate'' sample_add (Some calculate_metadata))
      (Some ''calculate'') =
     ''Command: calculate\<newline>Description: Add two numbers\<newline>Usage: calculate <a> <b>\<newline>Examples:\<newline>  calculate 5 3\<newline>''
   \<and> help_text (register (new_registry 0) ''calculate'' sample_add (Some calculate_metadata)) None =
     ''Available commands:\<newline>\<newline>  calculate - Add two numbers\<newline>''
   \<and> help_text (register (new_registry 0) ''bare'' sample_add None) (Some ''bare'') =
     ''Command: bare\<newline>No metadata available.''
   \<and> help_text (new_registry (0::nat)) (Some ''ghost'') = ''Command "ghost" not found.''
   \<and> help_text (new_registry (0::nat)) None = ''No commands registered.''\<close>
proof -
  define s where "s = register (new_registry 0) ''calculate'' sample_add (Some calculate_metadata)"
  define b where "b = register (new_registry 0) ''bare'' sample_add None"
  have get_s: "Map_get (commands s) ''calculate'' =
                 Some \<lparr>handler = sample_add, metadata = Some calculate_metadata\<rparr>"
    and get_b: "Map_get (commands b) ''bare'' = Some \<lparr>handler = sample_add, metadata = None\<rparr>"
    unfolding s_def b_def by (rule sample_entry)+
  have list_s: "list s = [''calculate'']"
    by (simp add: s_def list_register has_new list_new)
  have "reachable s"
    unfolding s_def by (intro reachable.intros)
  then have one: "at_most_one_entry s"
    by (simp add: at_most_one_entry_iff reachable_distinct)
  have md: "getMetadata s ''calculate'' = Some calculate_metadata"
    by (simp add: s_def getMetadata_register)
  have absent: "\<not> has (new_registry (0::nat)) ''ghost''"
    by (rule has_new)
  note absent_case = help_text_renders [THEN conjunct1, rule_format]
    and bare_case = help_text_renders [THEN conjunct2, THEN conjunct1, rule_format]
    and full_case = help_text_renders [THEN conjunct2, THEN conjunct2, THEN conjunct1, rule_format]
    and all_case = help_text_renders [THEN conjunct2, THEN conjunct2, THEN conjunct2, rule_format]
  have "help_text s (Some ''calculate'') = unlines (command_lines ''calculate'' calculate_metadata)"
    by (rule full_case) (intro conjI, simp, rule get_s, simp)
  then have 1: \<open>help_text s (Some ''calculate'') =
     ''Command: calculate\<newline>Description: Add two numbers\<newline>Usage: calculate <a> <b>\<newline>Examples:\<newline>  calculate 5 3\<newline>''\<close>
    by (simp add: unlines_def command_lines_def calculate_metadata_def)
  have "help_text s None = unlines ([''Available commands:'', []] @
                       map (\<lambda>n. listing_line n (getMetadata s n)) (list s))"
    by (rule all_case [THEN conjunct2, rule_format]) (simp_all add: one list_s)
  then have 2: "help_text s None =
     ''Available commands:\<newline>\<newline>  calculate - Add two numbers\<newline>''"
    by (simp add: list_s md unlines_def listing_line_def calculate_metadata_def)
  have "help_text b (Some ''bare'') = ''Command: '' @ ''bare'' @ ''\<newline>No metadata available.''"
    by (rule bare_case) (intro conjI, simp, rule get_b, simp)
  then have 3: "help_text b (Some ''bare'') = ''Command: bare\<newline>No metadata available.''"
    by simp
  have 4: \<open>help_text (new_registry (0::nat)) (Some ''ghost'') = ''Command "ghost" not found.''\<close>
    using absent_case [of "''ghost''" "new_registry (0::nat)"] absent by simp
  have 5: "help_text (new_registry (0::nat)) None = ''No commands registered.''"
    by (rule all_case [THEN conjunct1, rule_format]) (simp_all add: list_new)
  from 1 2 3 4 5 show ?thesis
    unfolding s_def b_def by blast
qed

text \<open>
  Claim C7 as it was stated says that \<open>help(name)\<close> of an absent name is a
  \<open>not found\<close> text for every argument, and that a description that is set gets its
  line. On a new registry \<open>help("")\<close> is \<open>No commands registered.\<close>, and a command
  whose description, usage and examples are set to empty values gets the name line only.
\<close>

theorem help_text_empty_name_counterexample:
  \<open>\<not> has (new_registry (0::nat)) []
   \<and> help_text (new_registry (0::nat)) (Some []) = ''No commands registered.''
   \<and> \<not> sublist ''not found'' (help_text (new_registry (0::nat)) (Some []))
   \<and> has (register (new_registry 0) ''x'' sample_add
            (Some \<lparr>description = Some [], usage = Some [], examples = Some []\<rparr>)) ''x''
   \<and> help_text (register (new_registry 0) ''x'' sample_add
            (Some \<lparr>description = Some [], usage = Some [], examples = Some []\<rparr>)) (Some ''x'') =
       ''Command: x\<newline>''\<close>
proof -
  have "help_text (new_registry (0::nat)) (Some []) = ''No commands registered.''"
    by (simp add: help_text_all list_new)
  moreover have "\<not> sublist ''not found'' ''No commands registered.''"
    by (simp add: sublist_code)
  moreover have "help_text (register (new_registry 0) ''x'' sample_add
            (Some \<lparr>description = Some [], usage = Some [], examples = Some []\<rparr>)) (Some ''x'') =
       ''Command: x\<newline>''"
    by (simp add: help_text_named get_register unlines_def command_lines_def)
  ultimately show ?thesis
    by (simp add: has_new has_register)
qed

subsection \<open>Metadata\<close>

text \<open>
  Claim C8. After any sequence of operations on a new registry, \<open>getMetadata(name)\<close> is
  the metadata that the most recent registration of the name recorded (by \<open>register\<close> or
  by \<open>plugin\<close>), and absent when the name was removed since or never registered.
  \<open>getMetadata\<close> right after \<open>register(name, h, m)\<close> is \<open>m\<close>; registrations of other
  names and executions do not change it. It is absent (\<open>None\<close>) for a name that is not
  registered and for a name registered without metadata alike, so the result does not
  tell the two apart. \<open>getMetadata\<close> reads the state and yields a value only: it has no
  new state to give back.
\<close>

theorem getMetadata_most_recent:
  "getMetadata (run (new_registry w) ops) name = recorded (rev ops) name
   \<and> getMetadata (register s name h m) name = m
   \<and> (\<forall>n. n \<noteq> name \<longrightarrow> getMetadata (register s n h m) name = getMetadata s name)
   \<and> getMetadata (snd (execute s n args)) name = getMetadata s name
   \<and> (\<not> has s name \<longrightarrow> getMetadata s name = None)
   \<and> (\<forall>entry. Map_get (commands s) name = Some entry \<and> metadata entry = None \<longrightarrow>
         has s name \<and> getMetadata s name = None)
   \<and> getMetadata (register s name h None) name = getMetadata (snd (unregister s name)) name"
proof -
  have "has s name \<and> getMetadata s name = None"
    if "Map_get (commands s) name = Some entry" "metadata entry = None" for entry
    using that by (simp add: getMetadata_def has_def Map_has_iff_get)
  moreover have "getMetadata (snd (execute s n args)) name = getMetadata s name"
    by (simp add: getMetadata_def commands_execute)
  ultimately show ?thesis
    by (simp add: getMetadata_run getMetadata_register getMetadata_absent getMetadata_unregister)
qed

theorem getMetadata_most_recent_witness:
  "getMetadata (run (new_registry (0::nat))
       [Register ''a'' sample_add None,
        Register ''a'' sample_multiply (Some calculate_metadata),
        Register ''b'' sample_add None,
        Plugin ''math'' [(''add'', HandlerObject sample_add (Some calculate_metadata))],
        Unregister ''math:add'']) ''a'' = Some calculate_metadata
   \<and> getMetadata (run (new_registry (0::nat))
       [Register ''a'' sample_add None,
        Register ''a'' sample_multiply (Some calculate_metadata),
        Register ''b'' sample_add None,
        Plugin ''math'' [(''add'', HandlerObject sample_add (Some calculate_metadata))],
        Unregister ''math:add'']) ''b'' = None
   \<and> getMetadata (run (new_registry (0::nat))
       [Register ''a'' sample_add None,
        Register ''a'' sample_multiply (Some calculate_metadata),
        Register ''b'' sample_add None,
        Plugin ''math'' [(''add'', HandlerObject sample_add (Some calculate_metadata))],
        Unregister ''math:add'']) ''math:add'' = None
   \<and> \<not> has (new_registry (0::nat)) ''ghost''
   \<and> getMetadata (new_registry (0::nat)) ''ghost'' = None"
proof -
  define ops :: "nat operation list" where
    "ops = [Register ''a'' sample_add None,
        Register ''a'' sample_multiply (Some calculate_metadata),
        Register ''b'' sample_add None,
        Plugin ''math'' [(''add'', HandlerObject sample_add (Some calculate_metadata))],
        Unregister ''math:add'']"
  have absent: "\<not> has (new_registry (0::nat)) ''ghost''"
    by (rule has_new)
  have a: "recorded (rev ops) ''a'' = Some calculate_metadata"
    and b: "recorded (rev ops) ''b'' = None"
    and c: "recorded (rev ops) ''math:add'' = None"
    by (simp_all add: ops_def composite_def)
  from getMetadata_most_recent [of 0 ops "''a''", THEN conjunct1] a
  have "getMetadata (run (new_registry 0) ops) ''a'' = Some calculate_metadata"
    by simp
  moreover from getMetadata_most_recent [of 0 ops "''b''", THEN conjunct1] b
  have "getMetadata (run (new_registry 0) ops) ''b'' = None"
    by simp
  moreover from getMetadata_most_recent [of 0 ops "''math:add''", THEN conjunct1] c
  have "getMetadata (run (new_registry 0) ops) ''math:add'' = None"
    by simp
  moreover from getMetadata_most_recent
      [of 0 "[]" "''ghost''" "new_registry (0::nat)" sample_add None "''ghost''" "[]"] absent
  have "getMetadata (new_registry (0::nat)) ''ghost'' = None"
    by blast
  ultimately show ?thesis
    using absent unfolding ops_def by blast
qed

subsection \<open>Removing a command\<close>

text \<open>
  Claim C9. \<open>unregister(name)\<close> of a name that is present returns true and removes that
  entry and no other: \<open>has(name)\<close> is false afterwards, the other names keep their
  entries and their order, and the map is one entry shorter. Of a name that is absent it
  returns false and leaves the whole state as it was. It has no failing branch.
\<close>

theorem unregister_removes:
  "(has s name \<longrightarrow>
      fst (unregister s name) = True
    \<and> \<not> has (snd (unregister s name)) name
    \<and> list (snd (unregister s name)) = removeAll name (list s)
    \<and> (\<forall>n. n \<noteq> name \<longrightarrow>
          Map_get (commands (snd (unregister s name))) n = Map_get (commands s) n)
    \<and> (at_most_one_entry s \<longrightarrow>
          length (commands (snd (unregister s name))) + 1 = length (commands s))
    \<and> console (snd (unregister s name)) = console s
    \<and> world (snd (unregister s name)) = world s)
   \<and> (\<not> has s name \<longrightarrow> unregister s name = (False, s))"
proof -
  have "fst (unregister s name) = True" if "has s name"
    using that by (simp add: unregister_def Map_delete_def has_def)
  moreover have "\<not> has (snd (unregister s name)) name"
    by (simp add: has_iff_list list_unregister)
  moreover have "length (commands (snd (unregister s name))) + 1 = length (commands s)"
    if "has s name" "at_most_one_entry s"
  proof -
    from that have d: "distinct (list s)" and m: "name \<in> set (list s)"
      by (simp_all add: at_most_one_entry_iff has_iff_list)
    have "length (list (snd (unregister s name))) = length (remove1 name (list s))"
      using d by (simp add: list_unregister distinct_remove1_removeAll)
    also have "\<dots> = length (list s) - 1"
      using m by (simp add: length_remove1)
    finally have "length (list (snd (unregister s name))) + 1 = length (list s)"
      using m by (cases "list s") auto
    then show ?thesis
      by (simp add: list_def Map_keys_def)
  qed
  moreover have "console (snd (unregister s name)) = console s"
    and "world (snd (unregister s name)) = world s"
    by (simp_all add: unregister_def Map_delete_def)
  ultimately show ?thesis
    by (simp add: list_unregister get_unregister unregister_absent)
qed

theorem unregister_removes_witness:
  "has (register (new_registry 0) ''temp:cmd'' sample_add None) ''temp:cmd''
   \<and> fst (unregister (register (new_registry 0) ''temp:cmd'' sample_add None) ''temp:cmd'') = True
   \<and> \<not> has (snd (unregister (register (new_registry 0) ''temp:cmd'' sample_add None) ''temp:cmd''))
          ''temp:cmd''
   \<and> \<not> has (new_registry (0::nat)) ''temp:cmd''
   \<and> unregister (new_registry (0::nat)) ''temp:cmd'' = (False, new_registry 0)"
proof -
  have present: "has (register (new_registry 0) ''temp:cmd'' sample_add None) ''temp:cmd''"
    by (simp add: has_register)
  have absent: "\<not> has (new_registry (0::nat)) ''temp:cmd''"
    by (simp add: has_iff_list list_new)
  from present absent show ?thesis
    using unregister_removes [of "register (new_registry 0) ''temp:cmd'' sample_add None" "''temp:cmd''"]
      unregister_removes [of "new_registry (0::nat)" "''temp:cmd''"]
    by blast
qed

subsection \<open>A handler that throws a value that is no Error\<close>




end
